theory Spec2Isabelle
  imports Main "HOL-Library.AList"
begin

section \<open>The message base of x/84: data model\<close>

text \<open>
  This theory embeds \<^verbatim>\<open>x84/bbs/msgbase.py\<close>. Python objects are values here: the
  \<^verbatim>\<open>DBProxy\<close> tables hold serialized copies, so a record read from a table never
  aliases the object that was stored. A timestamp stands for a \<^verbatim>\<open>datetime\<close>.
\<close>

type_synonym timestamp = nat

text \<open>
  The class \<^verbatim>\<open>Msg\<close>. The attribute \<^verbatim>\<open>tags\<close> is a Python set; it is kept as the list
  of its elements in the set's iteration order, because the dispatch loop of
  \<^verbatim>\<open>save\<close> depends on that order. Membership is \<open>t \<in> set (tags m)\<close>.
  \<^verbatim>\<open>_ctime\<close> and \<^verbatim>\<open>_stime\<close> are the fields behind the properties \<^verbatim>\<open>ctime\<close> and
  \<^verbatim>\<open>stime\<close>. The attributes \<^verbatim>\<open>parent\<close> and \<^verbatim>\<open>children\<close> are always present, as
  \<^verbatim>\<open>__init__\<close> leaves them (the two \<^verbatim>\<open>hasattr\<close> checks of \<^verbatim>\<open>save\<close> serve records
  pickled by older versions).
\<close>

record msg =
  idx :: "int option"
  ctime :: timestamp
  stime :: "timestamp option"
  author :: "string option"
  recipient :: "string option"
  subject :: string
  body :: string
  tags :: "string list"
  children :: "int set"
  parent :: "int option"

text \<open>\<^verbatim>\<open>Msg.__init__\<close>: the session's handle (if any) and the clock are passed in.\<close>

definition init_msg :: "string option \<Rightarrow> timestamp \<Rightarrow> string option \<Rightarrow> string \<Rightarrow> string \<Rightarrow> msg" where
  "init_msg handle now rcpt subj bdy =
     \<lparr>idx = None, ctime = now, stime = None, author = handle, recipient = rcpt,
      subject = subj, body = bdy, tags = [], children = {}, parent = None\<rparr>"

text \<open>Values of the per-network tables: \<^verbatim>\<open>transdb[idx] = idx\<close> and \<^verbatim>\<open>queuedb[idx] = t\<close>.\<close>

datatype netval = TransitId int | QueuedTag string

text \<open>One constructor for each call of \<^verbatim>\<open>logger\<close> in \<^verbatim>\<open>save\<close>.\<close>

datatype event =
    Tagged int string
  | Untagged int string
  | SelfParent
  | OriginAdded string int
  | Queued string int
  | Saved bool bool bool "string option"

datatype error =
    KeyError int
  | AssertionError
  | NoOptionError string string
  | NameError string

text \<open>
  The world outside the \<^verbatim>\<open>Msg\<close> object: the table \<^verbatim>\<open>msgbase\<close> (its keys are the
  decimal strings \<^verbatim>\<open>'%d' % idx\<close>, read back with \<^verbatim>\<open>int(key)\<close>, and are kept as the
  integers), the table \<^verbatim>\<open>tags\<close>, the transit and queue tables by name, the log and the
  clock. Tables are association lists with \<open>map_of\<close> for lookup and
  \<open>AList.update\<close> for item assignment. \<^verbatim>\<open>acquire\<close> and \<^verbatim>\<open>release\<close> have no effect
  in this sequential model and are left out.
\<close>

record world =
  msgdb :: "(int \<times> msg) list"
  tagdb :: "(string \<times> int set) list"
  netdb :: "string \<Rightarrow> (int \<times> netval) list"
  logged :: "event list"
  clock :: timestamp

text \<open>\<^verbatim>\<open>ini.CFG\<close>: section and option to value. \<^verbatim>\<open>has_option\<close> is \<open>cfg (s, k) \<noteq> None\<close>;
  \<^verbatim>\<open>get\<close> of a missing option raises.\<close>

type_synonym config = "string \<times> string \<Rightarrow> string option"

datatype result = Ok world msg | Raised error world msg

fun world_of :: "result \<Rightarrow> world" where
  "world_of (Ok w m) = w"
| "world_of (Raised e w m) = w"

fun msg_of :: "result \<Rightarrow> msg" where
  "msg_of (Ok w m) = m"
| "msg_of (Raised e w m) = m"

section \<open>Module-level functions\<close>

definition get_origin_line :: "config \<Rightarrow> error + string" where
  "get_origin_line cfg =
     (case cfg (''msg'', ''origin_line'') of
        Some line \<Rightarrow> Inr line
      | None \<Rightarrow>
          (case cfg (''system'', ''bbsname'') of
             None \<Rightarrow> Inl (NoOptionError ''system'' ''bbsname'')
           | Some name \<Rightarrow> Inr (''Sent from '' @ name)))"

definition crlf :: string where
  "crlf = [CHR 0x0D, CHR 0x0A]"

definition format_origin_line :: "config \<Rightarrow> error + string" where
  "format_origin_line cfg =
     (case get_origin_line cfg of
        Inl e \<Rightarrow> Inl e
      | Inr line \<Rightarrow> Inr (crlf @ ''---'' @ crlf @ line))"

definition get_msg :: "world \<Rightarrow> int \<Rightarrow> msg option" where
  "get_msg w i = map_of (msgdb w) i"

definition list_msgs :: "world \<Rightarrow> string list option \<Rightarrow> int set" where
  "list_msgs w tgs =
     (if tgs \<noteq> None \<and> 0 \<noteq> length (the tgs)
      then fold (\<lambda>tag msgs. msgs \<union> the (map_of (tagdb w) tag))
             (filter (\<lambda>tag. map_of (tagdb w) tag \<noteq> None) (the tgs)) {}
      else set (map fst (msgdb w)))"

text \<open>The module's global names. \<^verbatim>\<open>list_tags\<close> reads the name \<^verbatim>\<open>TABDB\<close>.\<close>

definition module_globals :: "(string \<times> string) list" where
  "module_globals = [(''MSGDB'', ''msgbase''), (''TAGDB'', ''tags'')]"

definition string_keys :: "world \<Rightarrow> string \<Rightarrow> string list" where
  "string_keys w table = (if table = ''tags'' then map fst (tagdb w) else [])"

definition list_tags :: "world \<Rightarrow> error + string list" where
  "list_tags w =
     (case map_of module_globals ''TABDB'' of
        None \<Rightarrow> Inl (NameError ''TABDB'')
      | Some table \<Rightarrow> Inr (string_keys w table))"

section \<open>The phases of save\<close>

definition is_new :: "msg \<Rightarrow> bool" where
  "is_new m \<longleftrightarrow> idx m = None \<or> stime m = None"

fun max_list :: "int list \<Rightarrow> int" where
  "max_list (k # ks) = fold max ks k"

text \<open>\<^verbatim>\<open>max([int(key) for key in db_msg.keys()] or [-1]) + 1\<close>\<close>

definition next_idx :: "world \<Rightarrow> int" where
  "next_idx w =
     max_list (if map fst (msgdb w) = [] then [-1] else map fst (msgdb w)) + 1"

definition assign :: "timestamp option \<Rightarrow> world \<Rightarrow> msg \<Rightarrow> msg" where
  "assign ct w m =
     (if is_new m
      then (case ct of
              Some c \<Rightarrow> m\<lparr>idx := Some (next_idx w), ctime := c, stime := Some c\<rparr>
            | None \<Rightarrow> m\<lparr>idx := Some (next_idx w), stime := Some (clock w)\<rparr>)
      else m)"

definition put_msg :: "msg \<Rightarrow> world \<Rightarrow> world" where
  "put_msg m w = w\<lparr>msgdb := AList.update (the (idx m)) m (msgdb w)\<rparr>"

text \<open>The first loop over the tag table: one entry of \<^verbatim>\<open>db_tag.iteritems()\<close>.\<close>

fun retag :: "int \<Rightarrow> string list \<Rightarrow> string \<times> int set \<Rightarrow> world \<Rightarrow> world" where
  "retag i tgs (tag, msgs) w =
     (if tag \<in> set tgs \<and> i \<notin> msgs
      then w\<lparr>tagdb := AList.update tag (insert i msgs) (tagdb w),
              logged := logged w @ [Tagged i tag]\<rparr>
      else if tag \<notin> set tgs \<and> i \<in> msgs
      then w\<lparr>tagdb := AList.update tag (msgs - {i}) (tagdb w),
              logged := logged w @ [Untagged i tag]\<rparr>
      else w)"

text \<open>The second loop: the tags of the message that the table does not have yet.\<close>

definition create_tags :: "int \<Rightarrow> string list \<Rightarrow> world \<Rightarrow> world" where
  "create_tags i tgs w =
     fold (\<lambda>tag v. v\<lparr>tagdb := AList.update tag {i} (tagdb v)\<rparr>)
       (filter (\<lambda>tag. map_of (tagdb w) tag = None) tgs) w"

definition reconcile_tags :: "msg \<Rightarrow> world \<Rightarrow> world" where
  "reconcile_tags m w =
     create_tags (the (idx m)) (tags m) (fold (retag (the (idx m)) (tags m)) (tagdb w) w)"

text \<open>\<^verbatim>\<open>assert self.parent not in self.children\<close>; \<^verbatim>\<open>None\<close> is in no set of ids.\<close>

definition assert_fails :: "msg \<Rightarrow> bool" where
  "assert_fails m = (case parent m of None \<Rightarrow> False | Some p \<Rightarrow> p \<in> children m)"

definition add_child :: "int \<Rightarrow> msg \<Rightarrow> msg" where
  "add_child i pm = pm\<lparr>children := insert i (children pm)\<rparr>"

definition strip_parent :: "msg \<Rightarrow> world \<Rightarrow> world" where
  "strip_parent m w =
     put_msg (m\<lparr>parent := None\<rparr>) (w\<lparr>logged := logged w @ [SelfParent]\<rparr>)"

subsection \<open>Parsing the tag lists of the configuration\<close>

fun split_comma :: "string \<Rightarrow> string list" where
  "split_comma [] = [[]]"
| "split_comma (c # cs) =
     (if c = CHR '','' then [] # split_comma cs
      else (case split_comma cs of
              [] \<Rightarrow> [[c]]
            | x # xs \<Rightarrow> (c # x) # xs))"

definition whitespace :: "char \<Rightarrow> bool" where
  "whitespace c \<longleftrightarrow> c \<in> set [CHR '' '', CHR 0x09, CHR 0x0A, CHR 0x0B, CHR 0x0C, CHR 0x0D]"

definition strip :: "string \<Rightarrow> string" where
  "strip s = rev (dropWhile whitespace (rev (dropWhile whitespace s)))"

definition tag_list :: "string \<Rightarrow> string list" where
  "tag_list s = map strip (split_comma s)"

subsection \<open>The routing decision\<close>

datatype action =
    NoAction
  | Fail error
  | Transit string string string
  | Enqueue string string

text \<open>The \<^verbatim>\<open>for t in self.tags\<close> loop up to its \<^verbatim>\<open>break\<close>: the table names are read
  from the configuration only for the tag that matches.\<close>

fun route :: "config \<Rightarrow> string list \<Rightarrow> string list \<Rightarrow> string \<Rightarrow> string list \<Rightarrow> action" where
  "route cfg networks server_tags origin_line [] = NoAction"
| "route cfg networks server_tags origin_line (t # ts) =
     (if t \<in> set server_tags
      then (case cfg (''msgnet_'' @ t, ''trans_db_name'') of
              None \<Rightarrow> Fail (NoOptionError (''msgnet_'' @ t) ''trans_db_name'')
            | Some transdb_name \<Rightarrow> Transit t transdb_name origin_line)
      else if t \<in> set networks
      then (case cfg (''msgnet_'' @ t, ''queue_db_name'') of
              None \<Rightarrow> Fail (NoOptionError (''msgnet_'' @ t) ''queue_db_name'')
            | Some queuedb_name \<Rightarrow> Enqueue t queuedb_name)
      else route cfg networks server_tags origin_line ts)"

definition dispatch_plan :: "config \<Rightarrow> string list \<Rightarrow> action" where
  "dispatch_plan cfg tgs =
     (case cfg (''msg'', ''network_tags'') of
        None \<Rightarrow> NoAction
      | Some networks_ini \<Rightarrow>
          (let networks = tag_list networks_ini in
           if length networks = 0 then NoAction
           else
             (let server_tags =
                    (case cfg (''msg'', ''server_tags'') of
                       None \<Rightarrow> []
                     | Some servers_ini \<Rightarrow> tag_list servers_ini)
              in case format_origin_line cfg of
                   Inl e \<Rightarrow> Fail e
                 | Inr origin_line \<Rightarrow> route cfg networks server_tags origin_line tgs)))"

definition transit :: "string \<Rightarrow> string \<Rightarrow> msg \<Rightarrow> world \<Rightarrow> world" where
  "transit transdb_name t m w =
     w\<lparr>netdb := (netdb w)(transdb_name :=
          AList.update (the (idx m)) (TransitId (the (idx m))) (netdb w transdb_name)),
       logged := logged w @ [OriginAdded t (the (idx m))]\<rparr>"

definition enqueue :: "string \<Rightarrow> string \<Rightarrow> msg \<Rightarrow> world \<Rightarrow> world" where
  "enqueue queuedb_name t m w =
     w\<lparr>netdb := (netdb w)(queuedb_name :=
          AList.update (the (idx m)) (QueuedTag t) (netdb w queuedb_name)),
       logged := logged w @ [Queued t (the (idx m))]\<rparr>"

text \<open>The closing \<^verbatim>\<open>logger.info\<close> of \<^verbatim>\<open>save\<close>.\<close>

definition finish :: "bool \<Rightarrow> world \<Rightarrow> msg \<Rightarrow> result" where
  "finish new w m =
     Ok (w\<lparr>logged := logged w @
            [Saved new (''public'' \<in> set (tags m)) (parent m = None) (recipient m)]\<rparr>) m"

section \<open>save\<close>

text \<open>
  \<^verbatim>\<open>Msg.save(noqueue, ctime)\<close>. A result carries the world and the object as they
  are when the call returns or raises; a call that never returns is \<open>None\<close>. The two
  recursive calls, \<^verbatim>\<open>parent_msg.save()\<close> and \<^verbatim>\<open>self.save()\<close>, take the default
  arguments; the two steps that make them get the recursive call as \<open>resave\<close>.
\<close>

text \<open>Lines 179 to 194: persist the message as child of its parent.\<close>

definition link_parent :: "(world \<Rightarrow> msg \<Rightarrow> result option) \<Rightarrow> world \<Rightarrow> msg \<Rightarrow> result option" where
  "link_parent resave w m =
     (case parent m of
        None \<Rightarrow> Some (Ok w m)
      | Some p \<Rightarrow>
          (case get_msg w p of
             None \<Rightarrow> Some (Raised (KeyError p) w m)
           | Some parent_msg \<Rightarrow>
               if idx m \<noteq> idx parent_msg
               then Option.bind (resave w (add_child (the (idx m)) parent_msg))
                      (\<lambda>r. Some (case r of
                                   Ok w' pm \<Rightarrow> Ok w' m
                                 | Raised e w' pm \<Rightarrow> Raised e w' m))
               else Some (Ok (strip_parent m w) (m\<lparr>parent := None\<rparr>))))"

text \<open>Lines 197 to 231: queue for network posting, and the closing log line.\<close>

definition dispatch ::
  "(world \<Rightarrow> msg \<Rightarrow> result option) \<Rightarrow> config \<Rightarrow> bool \<Rightarrow> world \<Rightarrow> msg \<Rightarrow> result option" where
  "dispatch resave cfg new w m =
     (case dispatch_plan cfg (tags m) of
        NoAction \<Rightarrow> Some (finish new w m)
      | Fail e \<Rightarrow> Some (Raised e w m)
      | Enqueue t queuedb_name \<Rightarrow> Some (finish new (enqueue queuedb_name t m w) m)
      | Transit t transdb_name origin_line \<Rightarrow>
          Option.bind (resave w (m\<lparr>body := body m @ origin_line\<rparr>))
            (\<lambda>r. Some (case r of
                         Raised e w' m' \<Rightarrow> Raised e w' m'
                       | Ok w' m' \<Rightarrow> finish new (transit transdb_name t m' w') m')))"

lemma link_parent_mono:
  assumes "\<And>w m. mono_option (\<lambda>f. resave f w m)"
  shows "mono_option (\<lambda>f. link_parent (resave f) w m)"
  unfolding link_parent_def
  by (cases "parent m"; cases "get_msg w (the (parent m))")
    (auto intro!: partial_function_mono assms)

lemma dispatch_mono:
  assumes "\<And>w m. mono_option (\<lambda>f. resave f w m)"
  shows "mono_option (\<lambda>f. dispatch (resave f) cfg new w m)"
  unfolding dispatch_def
  by (cases "dispatch_plan cfg (tags m)") (auto intro!: partial_function_mono assms)

text \<open>The body of \<^verbatim>\<open>save\<close>, lines 143 to 237.\<close>

definition save_body ::
  "(world \<Rightarrow> msg \<Rightarrow> result option) \<Rightarrow> config \<Rightarrow> bool \<Rightarrow> timestamp option \<Rightarrow>
   world \<Rightarrow> msg \<Rightarrow> result option" where
  "save_body resave cfg noqueue ct w m =
     (case cfg (''system'', ''datapath'') of
        None \<Rightarrow> Some (Raised (NoOptionError ''system'' ''datapath'') w m)
      | Some datapath \<Rightarrow>
          (let new = is_new m;
               m1 = assign ct w m;
               w2 = reconcile_tags m1 (put_msg m1 w)
           in if assert_fails m1 then Some (Raised AssertionError w2 m1)
              else
                Option.bind (link_parent resave w2 m1)
                  (\<lambda>r. case r of
                         Raised e w3 m3 \<Rightarrow> Some (Raised e w3 m3)
                       | Ok w3 m3 \<Rightarrow>
                           if \<not> noqueue \<and> new
                           then dispatch resave cfg new w3 m3
                           else Some (finish new w3 m3))))"

lemma save_body_mono [partial_function_mono]:
  assumes "\<And>w m. mono_option (\<lambda>f. resave f w m)"
  shows "mono_option (\<lambda>f. save_body (resave f) cfg noqueue ct w m)"
proof -
  have after: "mono_option (\<lambda>f. case r of
      Raised e w3 m3 \<Rightarrow> Some (Raised e w3 m3)
    | Ok w3 m3 \<Rightarrow>
        if \<not> noqueue \<and> new then dispatch (resave f) cfg new w3 m3
        else Some (finish new w3 m3))" for r new
    by (cases r) (auto intro!: partial_function_mono dispatch_mono assms)
  show ?thesis
    unfolding save_body_def Let_def
    by (cases "cfg (''system'', ''datapath'')")
      (auto intro!: partial_function_mono link_parent_mono after assms)
qed

partial_function (option) save ::
  "config \<Rightarrow> bool \<Rightarrow> timestamp option \<Rightarrow> world \<Rightarrow> msg \<Rightarrow> result option" where
  "save cfg noqueue ct w m = save_body (save cfg False None) cfg noqueue ct w m"


section \<open>Facts about the steps of save\<close>

lemma max_list_Max: "ks \<noteq> [] \<Longrightarrow> max_list ks = Max (set ks)"
proof (cases ks)
  case Nil
  assume "ks \<noteq> []"
  with Nil show ?thesis by simp
next
  case (Cons k ks')
  then show ?thesis by (simp only: max_list.simps Max.set_eq_fold)
qed

lemma next_idx_above: "k \<in> fst ` set (msgdb w) \<Longrightarrow> k < next_idx w"
proof -
  assume k: "k \<in> fst ` set (msgdb w)"
  then have ne: "map fst (msgdb w) \<noteq> []" by auto
  from k have "k \<le> Max (set (map fst (msgdb w)))" by simp
  with ne show ?thesis by (simp add: next_idx_def max_list_Max)
qed

lemma next_idx_empty: "msgdb w = [] \<Longrightarrow> next_idx w = 0"
  by (simp add: next_idx_def)

lemma assign_old [simp]: "\<not> is_new m \<Longrightarrow> assign ct w m = m"
  by (simp add: assign_def)

lemma assign_new_idx: "is_new m \<Longrightarrow> idx (assign ct w m) = Some (next_idx w)"
  by (simp add: assign_def split: option.splits)

lemma assign_not_new [simp]: "\<not> is_new (assign ct w m)"
  by (auto simp add: assign_def is_new_def split: option.splits)

lemma assign_frame [simp]:
  "tags (assign ct w m) = tags m" "children (assign ct w m) = children m"
  "parent (assign ct w m) = parent m" "body (assign ct w m) = body m"
  "recipient (assign ct w m) = recipient m" "author (assign ct w m) = author m"
  "subject (assign ct w m) = subject m"
  by (simp_all add: assign_def split: option.splits)

lemma put_msg_simps [simp]:
  "msgdb (put_msg m w) = AList.update (the (idx m)) m (msgdb w)"
  "tagdb (put_msg m w) = tagdb w" "netdb (put_msg m w) = netdb w"
  "logged (put_msg m w) = logged w" "clock (put_msg m w) = clock w"
  by (simp_all add: put_msg_def)

lemma retag_frame [simp]:
  "msgdb (retag i T e w) = msgdb w" "netdb (retag i T e w) = netdb w"
  "clock (retag i T e w) = clock w"
  by (cases e; simp)+

lemma fold_retag_frame [simp]:
  "msgdb (fold (retag i T) xs w) = msgdb w" "netdb (fold (retag i T) xs w) = netdb w"
  "clock (fold (retag i T) xs w) = clock w"
  by (induction xs arbitrary: w) simp_all

definition retagged :: "int \<Rightarrow> string list \<Rightarrow> string \<Rightarrow> int set \<Rightarrow> int set" where
  "retagged i T t ms = (if t \<in> set T then insert i ms else ms - {i})"

lemma retag_tagdb:
  "map_of (tagdb w) (fst e) = Some (snd e) \<Longrightarrow>
   map_of (tagdb (retag i T e w)) = (map_of (tagdb w))(fst e \<mapsto> retagged i T (fst e) (snd e))"
  by (cases e) (auto simp add: retagged_def update_conv' fun_eq_iff insert_absorb)

lemma retag_keys:
  "map_of (tagdb w) (fst e) = Some (snd e) \<Longrightarrow> map fst (tagdb (retag i T e w)) = map fst (tagdb w)"
  by (cases e) (auto simp add: update_keys dest: map_of_SomeD intro: rev_image_eqI)

lemma fold_retag_keys:
  "distinct (map fst xs) \<Longrightarrow> \<forall>e \<in> set xs. map_of (tagdb w) (fst e) = Some (snd e) \<Longrightarrow>
   map fst (tagdb (fold (retag i T) xs w)) = map fst (tagdb w)"
proof (induction xs arbitrary: w)
  case Nil
  then show ?case by simp
next
  case (Cons e xs)
  have e: "map_of (tagdb w) (fst e) = Some (snd e)" using Cons.prems(2) by simp
  have ne: "fst x \<noteq> fst e" if "x \<in> set xs" for x
    using that Cons.prems(1) by (force simp add: image_iff)
  have "\<forall>x \<in> set xs. map_of (tagdb (retag i T e w)) (fst x) = Some (snd x)"
    using Cons.prems(2) ne by (simp add: retag_tagdb [OF e])
  with Cons.IH [of "retag i T e w"] Cons.prems(1) retag_keys [OF e]
  show ?case by simp
qed

lemma fold_retag_tagdb:
  "distinct (map fst xs) \<Longrightarrow> \<forall>e \<in> set xs. map_of (tagdb w) (fst e) = Some (snd e) \<Longrightarrow>
   map_of (tagdb (fold (retag i T) xs w)) t =
     (case map_of xs t of None \<Rightarrow> map_of (tagdb w) t | Some ms \<Rightarrow> Some (retagged i T t ms))"
proof (induction xs arbitrary: w)
  case Nil
  then show ?case by simp
next
  case (Cons e xs)
  have e: "map_of (tagdb w) (fst e) = Some (snd e)" using Cons.prems(2) by simp
  have ne: "fst x \<noteq> fst e" if "x \<in> set xs" for x
    using that Cons.prems(1) by (force simp add: image_iff)
  have *: "\<forall>x \<in> set xs. map_of (tagdb (retag i T e w)) (fst x) = Some (snd x)"
    using Cons.prems(2) ne by (simp add: retag_tagdb [OF e])
  have d: "distinct (map fst xs)" using Cons.prems(1) by simp
  have n: "map_of xs (fst e) = None" using Cons.prems(1) by (simp add: map_of_eq_None_iff)
  show ?case
    using Cons.IH [OF d *] n
    by (auto simp add: retag_tagdb [OF e] split: option.splits)
qed

lemma fold_create_frame [simp]:
  "msgdb (fold (\<lambda>tag v. v\<lparr>tagdb := AList.update tag s (tagdb v)\<rparr>) ts w) = msgdb w"
  "netdb (fold (\<lambda>tag v. v\<lparr>tagdb := AList.update tag s (tagdb v)\<rparr>) ts w) = netdb w"
  "clock (fold (\<lambda>tag v. v\<lparr>tagdb := AList.update tag s (tagdb v)\<rparr>) ts w) = clock w"
  by (induction ts arbitrary: w) simp_all

lemma fold_create_tagdb:
  "map_of (tagdb (fold (\<lambda>tag v. v\<lparr>tagdb := AList.update tag s (tagdb v)\<rparr>) ts w)) t =
     (if t \<in> set ts then Some s else map_of (tagdb w) t)"
  by (induction ts arbitrary: w) (auto simp add: update_conv')

lemma fold_create_distinct:
  "distinct (map fst (tagdb w)) \<Longrightarrow>
   distinct (map fst (tagdb (fold (\<lambda>tag v. v\<lparr>tagdb := AList.update tag s (tagdb v)\<rparr>) ts w)))"
  by (induction ts arbitrary: w) (simp_all add: distinct_update)

lemma fold_create_keys:
  "fst ` set (tagdb (fold (\<lambda>tag v. v\<lparr>tagdb := AList.update tag s (tagdb v)\<rparr>) ts w)) =
     fst ` set (tagdb w) \<union> set ts"
  by (induction ts arbitrary: w) (auto simp add: dom_update)

lemma reconcile_frame [simp]:
  "msgdb (reconcile_tags m w) = msgdb w" "netdb (reconcile_tags m w) = netdb w"
  "clock (reconcile_tags m w) = clock w"
  by (simp_all add: reconcile_tags_def create_tags_def)

lemma map_of_self: "distinct (map fst xs) \<Longrightarrow> \<forall>e \<in> set xs. map_of xs (fst e) = Some (snd e)"
  by auto

text \<open>The tag table after reconciliation, entry by entry.\<close>

lemma reconcile_tagdb:
  assumes "distinct (map fst (tagdb w))"
  shows "map_of (tagdb (reconcile_tags m w)) t =
     (case map_of (tagdb w) t of
        Some ms \<Rightarrow> Some (retagged (the (idx m)) (tags m) t ms)
      | None \<Rightarrow> if t \<in> set (tags m) then Some {the (idx m)} else None)"
  using fold_retag_tagdb [OF assms map_of_self [OF assms], of "the (idx m)" "tags m"]
  by (auto simp add: reconcile_tags_def create_tags_def fold_create_tagdb split: option.splits)

lemma reconcile_distinct:
  assumes "distinct (map fst (tagdb w))"
  shows "distinct (map fst (tagdb (reconcile_tags m w)))"
  using fold_retag_keys [OF assms map_of_self [OF assms], of "the (idx m)" "tags m"] assms
  by (simp add: reconcile_tags_def create_tags_def fold_create_distinct)

lemma reconcile_keys:
  assumes "distinct (map fst (tagdb w))"
  shows "fst ` set (tagdb (reconcile_tags m w)) = fst ` set (tagdb w) \<union> set (tags m)"
proof -
  have "fst ` set (tagdb (fold (retag (the (idx m)) (tags m)) (tagdb w) w)) = fst ` set (tagdb w)"
    using fold_retag_keys [OF assms map_of_self [OF assms], of "the (idx m)" "tags m"]
    by (metis set_map)
  then show ?thesis
    by (auto simp add: reconcile_tags_def create_tags_def fold_create_keys map_of_eq_None_iff)
qed


lemma finish_world [simp]:
  "msgdb (world_of (finish n w m)) = msgdb w" "tagdb (world_of (finish n w m)) = tagdb w"
  "netdb (world_of (finish n w m)) = netdb w" "clock (world_of (finish n w m)) = clock w"
  "msg_of (finish n w m) = m"
  by (simp_all add: finish_def)

lemma strip_parent_simps [simp]:
  "msgdb (strip_parent m w) = AList.update (the (idx m)) (m\<lparr>parent := None\<rparr>) (msgdb w)"
  "tagdb (strip_parent m w) = tagdb w" "netdb (strip_parent m w) = netdb w"
  "clock (strip_parent m w) = clock w"
  by (simp_all add: strip_parent_def put_msg_def)

lemma transit_simps [simp]:
  "msgdb (transit db t m w) = msgdb w" "tagdb (transit db t m w) = tagdb w"
  "clock (transit db t m w) = clock w"
  "netdb (transit db t m w) =
     (netdb w)(db := AList.update (the (idx m)) (TransitId (the (idx m))) (netdb w db))"
  by (simp_all add: transit_def)

lemma enqueue_simps [simp]:
  "msgdb (enqueue db t m w) = msgdb w" "tagdb (enqueue db t m w) = tagdb w"
  "clock (enqueue db t m w) = clock w"
  "netdb (enqueue db t m w) =
     (netdb w)(db := AList.update (the (idx m)) (QueuedTag t) (netdb w db))"
  by (simp_all add: enqueue_def)

subsection \<open>The outcomes of each step\<close>

lemma link_parent_cases [consumes 1, case_names orphan missing self linked]:
  assumes "link_parent sv w m = Some r"
  obtains
    (orphan) "parent m = None" "r = Ok w m"
  | (missing) p where "parent m = Some p" "get_msg w p = None" "r = Raised (KeyError p) w m"
  | (self) p pm where "parent m = Some p" "get_msg w p = Some pm" "idx m = idx pm"
      "r = Ok (strip_parent m w) (m\<lparr>parent := None\<rparr>)"
  | (linked) p pm r1 where "parent m = Some p" "get_msg w p = Some pm" "idx m \<noteq> idx pm"
      "sv w (add_child (the (idx m)) pm) = Some r1"
      "r = (case r1 of Ok w' x \<Rightarrow> Ok w' m | Raised e w' x \<Rightarrow> Raised e w' m)"
  using assms
  by (auto simp add: link_parent_def bind_eq_Some_conv split: option.splits if_splits)

lemma dispatch_cases [consumes 1, case_names none failed queued hosted]:
  assumes "dispatch sv cfg new w m = Some res"
  obtains
    (none) "dispatch_plan cfg (tags m) = NoAction" "res = finish new w m"
  | (failed) e where "dispatch_plan cfg (tags m) = Fail e" "res = Raised e w m"
  | (queued) t db where "dispatch_plan cfg (tags m) = Enqueue t db"
      "res = finish new (enqueue db t m w) m"
  | (hosted) t db origin r where "dispatch_plan cfg (tags m) = Transit t db origin"
      "sv w (m\<lparr>body := body m @ origin\<rparr>) = Some r"
      "res = (case r of Raised e w' m' \<Rightarrow> Raised e w' m'
              | Ok w' m' \<Rightarrow> finish new (transit db t m' w') m')"
  using assms
  by (auto simp add: dispatch_def bind_eq_Some_conv split: action.splits)

lemma save_body_cases [consumes 1, case_names unconfigured asserted link_raised plain dispatched]:
  assumes "save_body sv cfg nq ct w m = Some res"
  obtains
    (unconfigured) "cfg (''system'', ''datapath'') = None"
      "res = Raised (NoOptionError ''system'' ''datapath'') w m"
  | (asserted) "cfg (''system'', ''datapath'') \<noteq> None" "assert_fails (assign ct w m)"
      "res = Raised AssertionError
         (reconcile_tags (assign ct w m) (put_msg (assign ct w m) w)) (assign ct w m)"
  | (link_raised) e w3 m3 where "cfg (''system'', ''datapath'') \<noteq> None"
      "\<not> assert_fails (assign ct w m)"
      "link_parent sv (reconcile_tags (assign ct w m) (put_msg (assign ct w m) w)) (assign ct w m)
         = Some (Raised e w3 m3)"
      "res = Raised e w3 m3"
  | (plain) w3 m3 where "cfg (''system'', ''datapath'') \<noteq> None"
      "\<not> assert_fails (assign ct w m)"
      "link_parent sv (reconcile_tags (assign ct w m) (put_msg (assign ct w m) w)) (assign ct w m)
         = Some (Ok w3 m3)"
      "nq \<or> \<not> is_new m" "res = finish (is_new m) w3 m3"
  | (dispatched) w3 m3 where "cfg (''system'', ''datapath'') \<noteq> None"
      "\<not> assert_fails (assign ct w m)"
      "link_parent sv (reconcile_tags (assign ct w m) (put_msg (assign ct w m) w)) (assign ct w m)
         = Some (Ok w3 m3)"
      "\<not> nq" "is_new m" "dispatch sv cfg True w3 m3 = Some res"
proof (cases "cfg (''system'', ''datapath'')")
  case None
  with assms show thesis by (intro unconfigured) (simp_all add: save_body_def)
next
  case (Some dp)
  define m1 where "m1 = assign ct w m"
  define w2 where "w2 = reconcile_tags m1 (put_msg m1 w)"
  note defs = m1_def [symmetric] w2_def [symmetric]
  show thesis
  proof (cases "assert_fails m1")
    case True
    with assms Some show thesis
      by (intro asserted) (simp_all add: save_body_def Let_def m1_def)
  next
    case False
    with assms Some obtain r where link: "link_parent sv w2 m1 = Some r"
      and after: "(case r of Raised e w3 m3 \<Rightarrow> Some (Raised e w3 m3)
          | Ok w3 m3 \<Rightarrow> if \<not> nq \<and> is_new m then dispatch sv cfg (is_new m) w3 m3
                         else Some (finish (is_new m) w3 m3)) = Some res"
      by (auto simp add: save_body_def Let_def bind_eq_Some_conv m1_def w2_def)
    show thesis
    proof (cases r)
      case (Raised e w3 m3)
      with link after False Some show thesis
        by (intro link_raised [of e w3 m3]) (simp_all add: m1_def w2_def)
    next
      case (Ok w3 m3)
      show thesis
      proof (cases "\<not> nq \<and> is_new m")
        case True
        with Ok link after False Some show thesis
          by (intro dispatched [of w3 m3]) (simp_all add: m1_def w2_def)
      next
        case nodisp: False
        with Ok link after False Some show thesis
          by (intro plain [of w3 m3]) (auto simp add: m1_def w2_def)
      qed
    qed
  qed
qed

section \<open>What the recursive calls preserve\<close>

definition stored_ok :: "(int \<Rightarrow> msg \<Rightarrow> bool) \<Rightarrow> world \<Rightarrow> bool" where
  "stored_ok Q w \<longleftrightarrow>
     (\<forall>k r. map_of (msgdb w) k = Some r \<longrightarrow> idx r = Some k \<and> stime r \<noteq> None \<and> Q k r)"

definition tag_step :: "int \<Rightarrow> string list \<Rightarrow> (string \<Rightarrow> int set option) \<Rightarrow> string \<Rightarrow> int set option" where
  "tag_step i T f t =
     (case f t of
        Some ms \<Rightarrow> Some (retagged i T t ms)
      | None \<Rightarrow> if t \<in> set T then Some {i} else None)"

definition pre_ok ::
  "(int \<Rightarrow> msg \<Rightarrow> bool) \<Rightarrow> ((string \<Rightarrow> int set option) \<Rightarrow> bool) \<Rightarrow> config \<Rightarrow> world \<Rightarrow> msg \<Rightarrow> bool" where
  "pre_ok Q S cfg w m \<longleftrightarrow>
     cfg (''system'', ''datapath'') \<noteq> None \<and> \<not> is_new m \<and> Q (the (idx m)) m \<and>
     (\<forall>k r. map_of (msgdb w) k = Some r \<longrightarrow> k \<noteq> the (idx m) \<longrightarrow>
        idx r = Some k \<and> stime r \<noteq> None \<and> Q k r) \<and>
     distinct (map fst (tagdb w)) \<and> S (map_of (tagdb w))"

definition post_ok ::
  "(int \<Rightarrow> msg \<Rightarrow> bool) \<Rightarrow> ((string \<Rightarrow> int set option) \<Rightarrow> bool) \<Rightarrow> world \<Rightarrow> msg \<Rightarrow> world \<Rightarrow> bool" where
  "post_ok Q S w m w' \<longleftrightarrow>
     stored_ok Q w' \<and> distinct (map fst (tagdb w')) \<and> S (map_of (tagdb w')) \<and>
     netdb w' = netdb w \<and> clock w' = clock w \<and>
     fst ` set (msgdb w') = insert (the (idx m)) (fst ` set (msgdb w))"

lemma reconcile_tagdb': "distinct (map fst (tagdb w)) \<Longrightarrow>
  map_of (tagdb (reconcile_tags m w)) = tag_step (the (idx m)) (tags m) (map_of (tagdb w))"
  by (rule ext) (simp add: reconcile_tagdb tag_step_def)

lemma post_ok_cong:
  "post_ok Q S w m w' \<Longrightarrow> msgdb w'' = msgdb w' \<Longrightarrow> tagdb w'' = tagdb w' \<Longrightarrow>
   netdb w'' = netdb w' \<Longrightarrow> clock w'' = clock w' \<Longrightarrow> post_ok Q S w m w''"
  by (simp add: post_ok_def stored_ok_def)

lemma save_stored_aux:
  assumes c1: "\<And>k r j. Q k r \<Longrightarrow> Q k (add_child j r)"
    and c2: "\<And>k r. Q k r \<Longrightarrow> parent r = Some k \<Longrightarrow> Q k (r\<lparr>parent := None\<rparr>)"
    and c3: "\<And>f k r. S f \<Longrightarrow> Q k r \<Longrightarrow> idx r = Some k \<Longrightarrow> S (tag_step k (tags r) f)"
    and ret: "save cfg nq ct w m = Some res"
  shows "pre_ok Q S cfg w m \<longrightarrow> post_ok Q S w m (world_of res)"
proof (rule save.raw_induct
    [where P = "\<lambda>cfg nq ct w m res. pre_ok Q S cfg w m \<longrightarrow> post_ok Q S w m (world_of res)",
      OF _ ret], goal_cases)
  case (1 f cfg nq ct w m res)
  note IH = 1(1) and body = 1(2)
  show ?case
  proof
    assume pre: "pre_ok Q S cfg w m"
    obtain i where i: "idx m = Some i" using pre by (auto simp add: pre_ok_def is_new_def)
    define w2 where "w2 = reconcile_tags m (put_msg m w)"
    have dp: "cfg (''system'', ''datapath'') \<noteq> None"
      and old: "\<not> is_new m" and Qm: "Q i m" and dist: "distinct (map fst (tagdb w))"
      and Sw: "S (map_of (tagdb w))"
      using pre i by (simp_all add: pre_ok_def)
    have st: "stime m \<noteq> None" using old by (simp add: is_new_def)
    have others: "\<And>k r. map_of (msgdb w) k = Some r \<Longrightarrow> k \<noteq> i \<Longrightarrow>
        idx r = Some k \<and> stime r \<noteq> None \<and> Q k r"
      using pre i by (simp add: pre_ok_def)
    have sto2: "stored_ok Q w2"
      using others Qm i st by (auto simp add: stored_ok_def w2_def update_conv')
    have dist2: "distinct (map fst (tagdb w2))"
      using dist by (simp add: w2_def reconcile_distinct)
    have S2: "S (map_of (tagdb w2))"
      using c3 [OF Sw Qm i] dist i by (simp add: w2_def reconcile_tagdb')
    have keys2: "fst ` set (msgdb w2) = insert i (fst ` set (msgdb w))"
      by (simp add: w2_def i dom_update)
    have post2: "post_ok Q S w m w2"
      using sto2 dist2 S2 keys2 i by (simp add: post_ok_def w2_def)
    have linked: "post_ok Q S w m w3"
      if "link_parent (f cfg False None) w2 m = Some r" "w3 = world_of r" for r w3
      using that(1)
    proof (cases rule: link_parent_cases)
      case orphan
      with post2 that(2) show ?thesis by simp
    next
      case (missing p)
      with post2 that(2) show ?thesis by simp
    next
      case (self p pm)
      then have "map_of (msgdb w2) p = Some pm" by (simp add: get_msg_def)
      with sto2 self(3) i have ip: "p = i" by (simp add: stored_ok_def)
      have Qs: "Q i (m\<lparr>parent := None\<rparr>)" using c2 [OF Qm] self(1) ip by simp
      have "stored_ok Q (strip_parent m w2)"
        using sto2 Qs i st by (auto simp add: stored_ok_def update_conv')
      moreover have "fst ` set (msgdb (strip_parent m w2)) = insert i (fst ` set (msgdb w))"
        using keys2 i by (auto simp add: dom_update)
      ultimately have "post_ok Q S w m (strip_parent m w2)"
        using post2 i by (simp add: post_ok_def)
      with self(4) that(2) show ?thesis by simp
    next
      case (linked p pm r1)
      then have pmdb: "map_of (msgdb w2) p = Some pm" by (simp add: get_msg_def)
      with sto2 have pidx: "idx pm = Some p" and pst: "stime pm \<noteq> None"
        and Qp: "Q p pm" by (simp_all add: stored_ok_def)
      have "pre_ok Q S cfg w2 (add_child i pm)"
        using dp pidx pst c1 [OF Qp] sto2 dist2 S2
        by (simp add: pre_ok_def add_child_def is_new_def stored_ok_def)
      with IH [OF linked(4) [unfolded i option.sel]]
      have p3: "post_ok Q S w2 (add_child i pm) (world_of r1)" by simp
      have "p \<in> fst ` set (msgdb w2)" using pmdb by (metis map_of_SomeD fst_conv image_eqI)
      with p3 post2 pidx have "post_ok Q S w m (world_of r1)"
        by (simp add: post_ok_def add_child_def insert_absorb)
      with linked(5) that(2) show ?thesis by (cases r1) simp_all
    qed
    from body show "post_ok Q S w m (world_of res)"
    proof (cases rule: save_body_cases)
      case unconfigured
      with dp show ?thesis by simp
    next
      case asserted
      with post2 old show ?thesis by (simp add: w2_def)
    next
      case (link_raised e w3 m3)
      with linked [of "Raised e w3 m3" w3] old show ?thesis by (simp add: w2_def)
    next
      case (plain w3 m3)
      with linked [of "Ok w3 m3" w3] old show ?thesis by (simp add: w2_def post_ok_cong)
    next
      case (dispatched w3 m3)
      with old show ?thesis by simp
    qed
  qed
qed

lemma save_unfold:
  "save cfg nq ct w m = Some res \<Longrightarrow> save_body (save cfg False None) cfg nq ct w m = Some res"
  by (subst (asm) save.simps)

lemma link_parent_msg:
  assumes "link_parent sv w m = Some r"
  shows "msg_of r = m \<or> msg_of r = m\<lparr>parent := None\<rparr>"
  using assms by (cases rule: link_parent_cases) (auto split: result.splits)

lemma save_old_fields:
  assumes old: "\<not> is_new m" and ret: "save cfg nq ct w m = Some res"
  shows "idx (msg_of res) = idx m \<and> ctime (msg_of res) = ctime m \<and> stime (msg_of res) = stime m"
  using save_unfold [OF ret]
proof (cases rule: save_body_cases)
  case unconfigured
  then show ?thesis by simp
next
  case asserted
  with old show ?thesis by simp
next
  case (link_raised e w3 m3)
  with link_parent_msg [OF link_raised(3)] old show ?thesis by auto
next
  case (plain w3 m3)
  with link_parent_msg [OF plain(3)] old show ?thesis by auto
next
  case (dispatched w3 m3)
  with old show ?thesis by simp
qed

text \<open>
  The stores that \<^verbatim>\<open>save\<close> builds: the record under key \<open>k\<close> has id \<open>k\<close> and a save
  time, its tags are keys of the tag table, and no tag occurs twice as a key.
\<close>

definition wf_world :: "world \<Rightarrow> bool" where
  "wf_world w \<longleftrightarrow>
     stored_ok (\<lambda>k r. set (tags r) \<subseteq> fst ` set (tagdb w)) w \<and> distinct (map fst (tagdb w))"

lemma save_stored:
  assumes "save cfg nq ct w m = Some res" and "pre_ok Q S cfg w m"
    and "\<And>k r j. Q k r \<Longrightarrow> Q k (add_child j r)"
    and "\<And>k r. Q k r \<Longrightarrow> parent r = Some k \<Longrightarrow> Q k (r\<lparr>parent := None\<rparr>)"
    and "\<And>f k r. S f \<Longrightarrow> Q k r \<Longrightarrow> idx r = Some k \<Longrightarrow> S (tag_step k (tags r) f)"
  shows "post_ok Q S w m (world_of res)"
  using save_stored_aux [of Q S cfg nq ct w m res] assms by blast

section \<open>An example store\<close>

definition demo_cfg :: config where
  "demo_cfg = [(''system'', ''datapath'') \<mapsto> ''~/.x84'',
               (''system'', ''bbsname'') \<mapsto> ''x84'',
               (''msg'', ''network_tags'') \<mapsto> ''fidonet, local'',
               (''msg'', ''server_tags'') \<mapsto> ''local'',
               (''msgnet_local'', ''trans_db_name'') \<mapsto> ''localtrans'',
               (''msgnet_fidonet'', ''queue_db_name'') \<mapsto> ''fidoqueue'']"

definition empty_world :: world where
  "empty_world = \<lparr>msgdb = [], tagdb = [], netdb = (\<lambda>name. []), logged = [], clock = 0\<rparr>"

definition msg0 :: msg where
  "msg0 = \<lparr>idx = Some 0, ctime = 1, stime = Some 2, author = Some ''alice'',
           recipient = Some ''bob'', subject = ''hi'', body = ''hello'',
           tags = [''public''], children = {1}, parent = None\<rparr>"

definition msg1 :: msg where
  "msg1 = \<lparr>idx = Some 1, ctime = 3, stime = Some 4, author = Some ''bob'',
           recipient = Some ''alice'', subject = ''re: hi'', body = ''hello yourself'',
           tags = [''public'', ''offtopic''], children = {}, parent = Some 0\<rparr>"

definition demo_world :: world where
  "demo_world = \<lparr>msgdb = [(0, msg0), (1, msg1)],
                 tagdb = [(''public'', {0, 1}), (''offtopic'', {1})],
                 netdb = (\<lambda>name. []), logged = [], clock = 5\<rparr>"

lemmas save_eval =
  save.simps save_body_def Let_def link_parent_def dispatch_def is_new_def assign_def
  next_idx_def put_msg_def reconcile_tags_def create_tags_def assert_fails_def add_child_def
  strip_parent_def get_msg_def dispatch_plan_def finish_def transit_def enqueue_def
  tag_list_def strip_def whitespace_def format_origin_line_def get_origin_line_def crlf_def

lemma bind_weak_cong: "x = y \<Longrightarrow> Option.bind x f = Option.bind y f"
  by simp

lemma demo_world_wf: "wf_world demo_world"
  by (auto simp add: wf_world_def stored_ok_def demo_world_def msg0_def msg1_def split: if_splits)

section \<open>Listing messages and tags\<close>

text \<open>
  C7. \<^verbatim>\<open>list_msgs\<close> without tags, or with an empty list of tags, returns the ids of the
  message table; with one or more tags it returns the union of the member sets of those
  tags that the tag table knows, so that unknown tags add nothing and a query of unknown
  tags only is empty.
\<close>

theorem list_msgs_spec:
  "list_msgs w None = fst ` set (msgdb w) \<and>
   list_msgs w (Some []) = fst ` set (msgdb w) \<and>
   (tgs \<noteq> [] \<longrightarrow>
      list_msgs w (Some tgs) = \<Union> {ms. \<exists>t \<in> set tgs. map_of (tagdb w) t = Some ms}) \<and>
   (tgs \<noteq> [] \<longrightarrow> (\<forall>t \<in> set tgs. map_of (tagdb w) t = None) \<longrightarrow>
      list_msgs w (Some tgs) = {})"
proof -
  have gen: "fold (\<lambda>tag msgs. msgs \<union> the (map_of (tagdb w) tag))
        (filter (\<lambda>tag. map_of (tagdb w) tag \<noteq> None) ts) acc =
      acc \<union> \<Union> {ms. \<exists>t \<in> set ts. map_of (tagdb w) t = Some ms}" for ts acc
  proof (induction ts arbitrary: acc)
    case Nil
    then show ?case by simp
  next
    case (Cons t ts)
    show ?case
    proof (cases "map_of (tagdb w) t")
      case None
      then show ?thesis using Cons.IH [of acc] by simp
    next
      case (Some ms)
      have "{ms'. \<exists>u \<in> set (t # ts). map_of (tagdb w) u = Some ms'} =
          insert ms {ms'. \<exists>u \<in> set ts. map_of (tagdb w) u = Some ms'}"
        using Some by auto
      then show ?thesis using Some Cons.IH [of "acc \<union> ms"] by (simp add: Un_assoc)
    qed
  qed
  show ?thesis using gen [of tgs "{}"] by (auto simp add: list_msgs_def)
qed

theorem list_msgs_spec_witness:
  "[''public'', ''nope''] \<noteq> [] \<and> [''nope''] \<noteq> [] \<and>
   map_of (tagdb demo_world) ''nope'' = None \<and>
   list_msgs demo_world None = {0, 1} \<and>
   list_msgs demo_world (Some [''offtopic'', ''nope'']) = {1} \<and>
   list_msgs demo_world (Some [''nope'']) = {}"
proof -
  have "\<Union> {ms. \<exists>t \<in> set [''offtopic'', ''nope'']. map_of (tagdb demo_world) t = Some ms} = {1}"
    by (auto simp add: demo_world_def)
  then show ?thesis
    using list_msgs_spec [of demo_world "[''offtopic'', ''nope'']"]
      list_msgs_spec [of demo_world "[''nope'']"]
    by (auto simp add: demo_world_def)
qed

text \<open>
  C4. \<^verbatim>\<open>list_tags\<close> is to return the keys of the tag table, but it opens the table
  under the global name \<^verbatim>\<open>TABDB\<close>, which the module does not define: every call
  raises \<^verbatim>\<open>NameError\<close>.
\<close>

theorem list_tags_raises: "list_tags w = Inl (NameError ''TABDB'')"
  by (simp add: list_tags_def module_globals_def)

section \<open>Saving a message\<close>

text \<open>
  C9. A message that has an id and a save time is not new: a further \<^verbatim>\<open>save\<close>, however
  it ends, leaves \<^verbatim>\<open>idx\<close>, \<^verbatim>\<open>_ctime\<close> and \<^verbatim>\<open>_stime\<close> of the object as they were (a
  \<^verbatim>\<open>ctime\<close> argument is ignored), and in a well-formed store the record kept under its
  id carries the same three values, whatever else of it changed.
\<close>

theorem save_again_keeps_identity:
  assumes "\<not> is_new m" and "save cfg nq ct w m = Some res"
  shows "idx (msg_of res) = idx m \<and> ctime (msg_of res) = ctime m \<and>
         stime (msg_of res) = stime m \<and>
         (cfg (''system'', ''datapath'') \<noteq> None \<longrightarrow> wf_world w \<longrightarrow>
            (\<exists>r. get_msg (world_of res) (the (idx m)) = Some r \<and>
                  idx r = idx m \<and> ctime r = ctime m \<and> stime r = stime m))"
proof -
  have "\<exists>r. get_msg (world_of res) (the (idx m)) = Some r \<and>
            idx r = idx m \<and> ctime r = ctime m \<and> stime r = stime m"
    if dp: "cfg (''system'', ''datapath'') \<noteq> None" and wf: "wf_world w"
  proof -
    define Q where "Q = (\<lambda>k (r::msg). k = the (idx m) \<longrightarrow> ctime r = ctime m \<and> stime r = stime m)"
    have "pre_ok Q (\<lambda>f. True) cfg w m"
      using dp wf assms(1) by (simp add: pre_ok_def wf_world_def stored_ok_def Q_def)
    then have post: "post_ok Q (\<lambda>f. True) w m (world_of res)"
      by (rule save_stored [OF assms(2)]) (simp_all add: Q_def add_child_def)
    then have "the (idx m) \<in> fst ` set (msgdb (world_of res))" by (simp add: post_ok_def)
    then obtain r where r: "map_of (msgdb (world_of res)) (the (idx m)) = Some r"
      by (metis map_of_eq_None_iff not_Some_eq)
    with post assms(1) have "idx r = idx m \<and> ctime r = ctime m \<and> stime r = stime m"
      by (auto simp add: post_ok_def stored_ok_def Q_def is_new_def)
    with r show ?thesis by (simp add: get_msg_def)
  qed
  with save_old_fields [OF assms] show ?thesis by blast
qed

theorem save_again_keeps_identity_witness:
  "\<not> is_new (msg1\<lparr>body := ''edited''\<rparr>) \<and>
   save demo_cfg False (Some 9) demo_world (msg1\<lparr>body := ''edited''\<rparr>) \<noteq> None \<and>
   idx (msg_of (the (save demo_cfg False (Some 9) demo_world (msg1\<lparr>body := ''edited''\<rparr>)))) = Some 1 \<and>
   ctime (msg_of (the (save demo_cfg False (Some 9) demo_world (msg1\<lparr>body := ''edited''\<rparr>)))) = 3 \<and>
   stime (msg_of (the (save demo_cfg False (Some 9) demo_world (msg1\<lparr>body := ''edited''\<rparr>)))) = Some 4 \<and>
   demo_cfg (''system'', ''datapath'') \<noteq> None \<and> wf_world demo_world \<and>
   map_option (\<lambda>r. (idx r, ctime r, stime r, body r))
     (get_msg (world_of (the (save demo_cfg False (Some 9) demo_world (msg1\<lparr>body := ''edited''\<rparr>)))) 1)
     = Some (Some 1, 3, Some 4, ''edited'')"
proof -
  have old: "\<not> is_new (msg1\<lparr>body := ''edited''\<rparr>)" by (simp add: is_new_def msg1_def)
  have ret: "save demo_cfg False (Some 9) demo_world (msg1\<lparr>body := ''edited''\<rparr>) =
      Some (the (save demo_cfg False (Some 9) demo_world (msg1\<lparr>body := ''edited''\<rparr>)))"
    by (simp add: save_eval demo_cfg_def demo_world_def msg0_def msg1_def
        cong: let_weak_cong bind_weak_cong)
  have dp: "demo_cfg (''system'', ''datapath'') \<noteq> None" by (simp add: demo_cfg_def)
  have body: "map_option body (get_msg (world_of (the (save demo_cfg False (Some 9) demo_world
      (msg1\<lparr>body := ''edited''\<rparr>)))) 1) = Some ''edited''"
    by (simp add: save_eval demo_cfg_def demo_world_def msg0_def msg1_def
        cong: let_weak_cong bind_weak_cong)
  show ?thesis
    using save_again_keeps_identity [OF old ret] old ret dp demo_world_wf body
    by (auto simp add: msg1_def)
qed

text \<open>
  C10. A message whose parent id is among its own children fails the assertion of
  \<^verbatim>\<open>save\<close>, given that the configuration has \<^verbatim>\<open>system.datapath\<close>, which \<^verbatim>\<open>save\<close>
  reads first. The call raises after the record has been written under its id and the tag
  table reconciled (every tag of the message lists the id, every other known tag does not)
  and before the thread link: the parent's record is as before. Nothing is rolled back.
\<close>

theorem save_parent_among_children:
  assumes "cfg (''system'', ''datapath'') \<noteq> None" and "parent m = Some p"
    and "p \<in> children m" and "distinct (map fst (tagdb w))"
  shows "\<exists>w'. save cfg nq ct w m = Some (Raised AssertionError w' (assign ct w m)) \<and>
           msgdb w' = AList.update (the (idx (assign ct w m))) (assign ct w m) (msgdb w) \<and>
           (\<forall>t \<in> set (tags m). \<exists>ms. map_of (tagdb w') t = Some ms \<and>
              the (idx (assign ct w m)) \<in> ms) \<and>
           (\<forall>t ms. map_of (tagdb w) t = Some ms \<longrightarrow> t \<notin> set (tags m) \<longrightarrow>
              map_of (tagdb w') t = Some (ms - {the (idx (assign ct w m))})) \<and>
           (the (idx (assign ct w m)) \<noteq> p \<longrightarrow> get_msg w' p = get_msg w p)"
proof -
  define m1 where "m1 = assign ct w m"
  define w' where "w' = reconcile_tags m1 (put_msg m1 w)"
  have "assert_fails m1" using assms(2,3) by (simp add: assert_fails_def m1_def)
  with assms(1) have "save cfg nq ct w m = Some (Raised AssertionError w' m1)"
    by (subst save.simps) (auto simp add: save_body_def Let_def m1_def w'_def)
  moreover have "msgdb w' = AList.update (the (idx m1)) m1 (msgdb w)"
    by (simp add: w'_def)
  moreover have "\<exists>ms. map_of (tagdb w') t = Some ms \<and> the (idx m1) \<in> ms"
    if "t \<in> set (tags m)" for t
    using that assms(4)
    by (simp add: w'_def reconcile_tagdb m1_def retagged_def split: option.splits)
  moreover have "map_of (tagdb w') t = Some (ms - {the (idx m1)})"
    if "map_of (tagdb w) t = Some ms" "t \<notin> set (tags m)" for t ms
    using that assms(4) by (simp add: w'_def reconcile_tagdb m1_def retagged_def)
  moreover have "get_msg w' p = get_msg w p" if "the (idx m1) \<noteq> p"
    using that by (simp add: w'_def get_msg_def update_conv')
  ultimately show ?thesis unfolding m1_def by blast
qed

theorem save_parent_among_children_witness:
  "demo_cfg (''system'', ''datapath'') \<noteq> None \<and> parent (msg0\<lparr>parent := Some 1\<rparr>) = Some 1 \<and>
   1 \<in> children (msg0\<lparr>parent := Some 1\<rparr>) \<and> distinct (map fst (tagdb demo_world)) \<and>
   map_option (\<lambda>r. case r of Ok w m \<Rightarrow> None | Raised e w m \<Rightarrow> Some e)
     (save demo_cfg False None demo_world (msg0\<lparr>parent := Some 1\<rparr>)) = Some (Some AssertionError) \<and>
   map_option (\<lambda>r. map_option parent (get_msg (world_of r) 0))
     (save demo_cfg False None demo_world (msg0\<lparr>parent := Some 1\<rparr>)) = Some (Some (Some 1)) \<and>
   map_option (\<lambda>r. map_option children (get_msg (world_of r) 1))
     (save demo_cfg False None demo_world (msg0\<lparr>parent := Some 1\<rparr>)) = Some (Some {})"
proof -
  have dp: "demo_cfg (''system'', ''datapath'') \<noteq> None" by (simp add: demo_cfg_def)
  have p: "parent (msg0\<lparr>parent := Some 1\<rparr>) = Some 1" by simp
  have c: "1 \<in> children (msg0\<lparr>parent := Some 1\<rparr>)" by (simp add: msg0_def)
  have d: "distinct (map fst (tagdb demo_world))" by (simp add: demo_world_def)
  have old: "assign None demo_world (msg0\<lparr>parent := Some 1\<rparr>) = msg0\<lparr>parent := Some 1\<rparr>"
    by (simp add: assign_def is_new_def msg0_def)
  have g: "get_msg demo_world 1 = Some msg1" by (simp add: get_msg_def demo_world_def)
  have i: "the (idx (msg0\<lparr>parent := Some 1\<rparr>)) = 0" by (simp add: msg0_def)
  note th = save_parent_among_children [of demo_cfg "msg0\<lparr>parent := Some 1\<rparr>" 1 demo_world
      False None, OF dp p c d, unfolded old i]
  from th obtain w' where "save demo_cfg False None demo_world (msg0\<lparr>parent := Some 1\<rparr>) =
      Some (Raised AssertionError w' (msg0\<lparr>parent := Some 1\<rparr>))"
    and "msgdb w' = AList.update 0 (msg0\<lparr>parent := Some 1\<rparr>) (msgdb demo_world)"
    and "get_msg w' 1 = get_msg demo_world 1"
    by auto
  with dp p c d g show ?thesis
    by (simp add: get_msg_def demo_world_def msg0_def msg1_def update_conv')
qed

section \<open>Identifiers\<close>

lemma link_parent_keys:
  assumes "link_parent sv w m = Some r"
    and "\<forall>w' m' r'. sv w' m' = Some r' \<longrightarrow> fst ` set (msgdb w') \<subseteq> fst ` set (msgdb (world_of r'))"
  shows "fst ` set (msgdb w) \<subseteq> fst ` set (msgdb (world_of r))"
  using assms(1)
proof (cases rule: link_parent_cases)
  case (linked p pm r1)
  with assms(2) [rule_format, OF linked(4)] show ?thesis by (cases r1) simp_all
qed (auto simp add: dom_update)

lemma dispatch_keys:
  assumes "dispatch sv cfg new w m = Some res"
    and "\<forall>w' m' r'. sv w' m' = Some r' \<longrightarrow> fst ` set (msgdb w') \<subseteq> fst ` set (msgdb (world_of r'))"
  shows "fst ` set (msgdb w) \<subseteq> fst ` set (msgdb (world_of res))"
  using assms(1)
proof (cases rule: dispatch_cases)
  case (hosted t db origin r)
  with assms(2) [rule_format, OF hosted(2)] show ?thesis by (cases r) simp_all
qed simp_all

lemma save_body_keys:
  assumes "save_body sv cfg nq ct w m = Some res"
    and "\<forall>w' m' r'. sv w' m' = Some r' \<longrightarrow> fst ` set (msgdb w') \<subseteq> fst ` set (msgdb (world_of r'))"
  shows "fst ` set (msgdb w) \<subseteq> fst ` set (msgdb (world_of res)) \<and>
     (cfg (''system'', ''datapath'') \<noteq> None \<longrightarrow>
        the (idx (assign ct w m)) \<in> fst ` set (msgdb (world_of res)))"
proof -
  define m1 where "m1 = assign ct w m"
  define w2 where "w2 = reconcile_tags m1 (put_msg m1 w)"
  have k2: "fst ` set (msgdb w2) = insert (the (idx m1)) (fst ` set (msgdb w))"
    by (simp add: w2_def dom_update)
  have goal: ?thesis if "fst ` set (msgdb w2) \<subseteq> fst ` set (msgdb (world_of res))"
    using that k2 by (auto simp add: m1_def)
  from assms(1) show ?thesis
  proof (cases rule: save_body_cases)
    case unconfigured
    then show ?thesis by simp
  next
    case asserted
    then show ?thesis by (intro goal) (simp add: m1_def w2_def)
  next
    case (link_raised e w3 m3)
    with link_parent_keys [OF link_raised(3) assms(2)] show ?thesis
      by (intro goal) (simp add: m1_def w2_def)
  next
    case (plain w3 m3)
    with link_parent_keys [OF plain(3) assms(2)] show ?thesis
      by (intro goal) (simp add: m1_def w2_def)
  next
    case (dispatched w3 m3)
    from link_parent_keys [OF dispatched(3) assms(2)] dispatch_keys [OF dispatched(6) assms(2)]
    show ?thesis by (intro goal) (simp add: m1_def w2_def)
  qed
qed

lemma save_keys:
  assumes ret: "save cfg nq ct w m = Some res"
  shows "fst ` set (msgdb w) \<subseteq> fst ` set (msgdb (world_of res)) \<and>
     (cfg (''system'', ''datapath'') \<noteq> None \<longrightarrow>
        the (idx (assign ct w m)) \<in> fst ` set (msgdb (world_of res)))"
proof (rule save.raw_induct
    [where P = "\<lambda>cfg nq ct w m res.
        fst ` set (msgdb w) \<subseteq> fst ` set (msgdb (world_of res)) \<and>
        (cfg (''system'', ''datapath'') \<noteq> None \<longrightarrow>
           the (idx (assign ct w m)) \<in> fst ` set (msgdb (world_of res)))",
      OF _ ret], goal_cases)
  case (1 f cfg nq ct w m res)
  show ?case
    by (rule save_body_keys [OF 1(2)]) (use 1(1) in blast)
qed

lemma save_new_idx:
  assumes new: "is_new m" and dp: "cfg (''system'', ''datapath'') \<noteq> None"
    and ret: "save cfg nq ct w m = Some res"
  shows "idx (msg_of res) = Some (next_idx w)"
proof -
  define m1 where "m1 = assign ct w m"
  have i1: "idx m1 = Some (next_idx w)" using new by (simp add: m1_def assign_new_idx)
  have linked: "idx m3 = Some (next_idx w) \<and> \<not> is_new m3"
    if "link_parent (save cfg False None) w2 m1 = Some r" "m3 = msg_of r" for w2 r m3
    using link_parent_msg [OF that(1)] that(2) i1 assign_not_new [of ct w m]
    by (auto simp add: is_new_def m1_def)
  from save_unfold [OF ret] show ?thesis
  proof (cases rule: save_body_cases)
    case unconfigured
    with dp show ?thesis by simp
  next
    case asserted
    with i1 show ?thesis by (simp add: m1_def)
  next
    case (link_raised e w3 m3)
    with linked [of _ "Raised e w3 m3" m3] show ?thesis by (simp add: m1_def)
  next
    case (plain w3 m3)
    with linked [of _ "Ok w3 m3" m3] show ?thesis by (simp add: m1_def)
  next
    case (dispatched w3 m3)
    from linked [of _ "Ok w3 m3" m3] dispatched(3)
    have m3: "idx m3 = Some (next_idx w)" "\<not> is_new m3" by (simp_all add: m1_def)
    from dispatched(6) show ?thesis
    proof (cases rule: dispatch_cases)
      case (hosted t db origin r)
      have "\<not> is_new (m3\<lparr>body := body m3 @ origin\<rparr>)" using m3(2) by (simp add: is_new_def)
      from save_old_fields [OF this hosted(2)] m3(1) hosted(3) show ?thesis
        by (cases r) simp_all
    qed (use m3 in simp_all)
  qed
qed

lemma next_idx_Max:
  "next_idx w = (if fst ` set (msgdb w) = {} then - 1 else Max (fst ` set (msgdb w))) + 1"
  by (auto simp add: next_idx_def max_list_Max)

text \<open>A caller that saves one message after the other, whatever each call returns or
  raises; the trace keeps the world before each call, the message and the outcome.\<close>

fun save_all ::
  "config \<Rightarrow> world \<Rightarrow> (bool \<times> timestamp option \<times> msg) list \<Rightarrow> (world \<times> msg \<times> result) list option" where
  "save_all cfg w [] = Some []"
| "save_all cfg w ((noqueue, ct, m) # calls) =
     Option.bind (save cfg noqueue ct w m)
       (\<lambda>r. map_option ((#) (w, m, r)) (save_all cfg (world_of r) calls))"

definition minted :: "(world \<times> msg \<times> result) list \<Rightarrow> int list" where
  "minted tr = map (\<lambda>(w, m, r). the (idx (msg_of r))) (filter (\<lambda>(w, m, r). is_new m) tr)"

lemma save_all_minted:
  assumes dp: "cfg (''system'', ''datapath'') \<noteq> None"
  shows "save_all cfg w calls = Some tr \<Longrightarrow>
     (\<forall>(w', m, r) \<in> set tr. is_new m \<longrightarrow> idx (msg_of r) = Some (next_idx w')) \<and>
     sorted_wrt (<) (minted tr) \<and>
     (\<forall>i \<in> set (minted tr). \<forall>k \<in> fst ` set (msgdb w). k < i)"
proof (induction calls arbitrary: w tr)
  case Nil
  then show ?case by (simp add: minted_def)
next
  case (Cons c calls)
  obtain nq ct m where c: "c = (nq, ct, m)" by (cases c)
  from Cons.prems c obtain r tr' where r: "save cfg nq ct w m = Some r"
    and tr': "save_all cfg (world_of r) calls = Some tr'" and tr: "tr = (w, m, r) # tr'"
    by (auto simp add: bind_eq_Some_conv)
  note IH = Cons.IH [OF tr']
  from save_keys [OF r] dp have sub: "fst ` set (msgdb w) \<subseteq> fst ` set (msgdb (world_of r))"
    and mine: "the (idx (assign ct w m)) \<in> fst ` set (msgdb (world_of r))" by simp_all
  from IH sub have above: "\<forall>i \<in> set (minted tr'). \<forall>k \<in> fst ` set (msgdb w). k < i" by blast
  show ?case
  proof (cases "is_new m")
    case False
    then have "minted tr = minted tr'" by (simp add: tr minted_def)
    with IH above False show ?thesis by (simp add: tr)
  next
    case True
    from save_new_idx [OF True dp r] have i: "idx (msg_of r) = Some (next_idx w)" .
    from True have m: "minted tr = next_idx w # minted tr'" by (simp add: tr minted_def i)
    from mine True have "next_idx w \<in> fst ` set (msgdb (world_of r))" by (simp add: assign_new_idx)
    with IH have later: "\<forall>j \<in> set (minted tr'). next_idx w < j" by blast
    have "\<forall>(w', m, r) \<in> set tr. is_new m \<longrightarrow> idx (msg_of r) = Some (next_idx w')"
      using IH i by (simp add: tr)
    moreover have "sorted_wrt (<) (minted tr)"
      unfolding m using IH later by simp
    moreover have "\<forall>i \<in> set (minted tr). \<forall>k \<in> fst ` set (msgdb w). k < i"
      unfolding m using above next_idx_above [of _ w] by auto
    ultimately show ?thesis by blast
  qed
qed

text \<open>
  C1. A new message gets the id \<open>max + 1\<close> of the ids in the message table, with \<open>-1\<close>
  for the maximum of an empty table. Over any sequence of calls of \<^verbatim>\<open>save\<close>, returning or
  raising, in a system configured with \<^verbatim>\<open>system.datapath\<close>, the ids given to the new
  messages increase strictly in the order of the calls, so no two are equal, and none was
  a key of the table before. The model is sequential: one \<^verbatim>\<open>save\<close> runs at a time, which
  is what the lock around lines 147 to 156 provides.
\<close>

theorem save_mints_fresh_ids:
  assumes "cfg (''system'', ''datapath'') \<noteq> None" and "save_all cfg w calls = Some tr"
  shows "(\<forall>(w', m, r) \<in> set tr. is_new m \<longrightarrow>
           idx (msg_of r) =
             Some ((if fst ` set (msgdb w') = {} then - 1 else Max (fst ` set (msgdb w'))) + 1)) \<and>
         sorted_wrt (<) (minted tr) \<and> distinct (minted tr) \<and>
         (\<forall>i \<in> set (minted tr). i \<notin> fst ` set (msgdb w))"
proof -
  note * = save_all_minted [OF assms]
  from * have sorted: "sorted_wrt (<) (minted tr)" by simp
  then have "distinct (minted tr)" by (simp add: strict_sorted_iff)
  moreover from * have "\<forall>i \<in> set (minted tr). i \<notin> fst ` set (msgdb w)" by blast
  moreover from * have "\<forall>(w', m, r) \<in> set tr. is_new m \<longrightarrow>
      idx (msg_of r) =
        Some ((if fst ` set (msgdb w') = {} then - 1 else Max (fst ` set (msgdb w'))) + 1)"
    unfolding next_idx_Max by simp
  ultimately show ?thesis using sorted by blast
qed

definition first_post :: msg where
  "first_post = (init_msg (Some ''alice'') 1 (Some ''bob'') ''hi'' ''hello'')\<lparr>tags := [''public'']\<rparr>"

definition second_post :: msg where
  "second_post = (init_msg (Some ''bob'') 3 (Some ''alice'') ''re: hi'' ''hello yourself'')
     \<lparr>tags := [''public'', ''offtopic''], parent := Some 0\<rparr>"

theorem save_mints_fresh_ids_witness:
  "demo_cfg (''system'', ''datapath'') \<noteq> None \<and>
   save_all demo_cfg empty_world [(False, None, first_post), (False, None, second_post)] \<noteq> None \<and>
   minted (the (save_all demo_cfg empty_world
     [(False, None, first_post), (False, None, second_post)])) = [0, 1] \<and>
   distinct (minted (the (save_all demo_cfg empty_world
     [(False, None, first_post), (False, None, second_post)])))"
proof -
  have dp: "demo_cfg (''system'', ''datapath'') \<noteq> None" by (simp add: demo_cfg_def)
  have ne: "save_all demo_cfg empty_world [(False, None, first_post), (False, None, second_post)] \<noteq> None"
    by (simp add: save_eval demo_cfg_def empty_world_def first_post_def second_post_def init_msg_def
        cong: let_weak_cong bind_weak_cong)
  then have ret: "save_all demo_cfg empty_world [(False, None, first_post), (False, None, second_post)] =
      Some (the (save_all demo_cfg empty_world
        [(False, None, first_post), (False, None, second_post)]))"
    by (rule option.collapse [symmetric])
  have ids: "minted (the (save_all demo_cfg empty_world
      [(False, None, first_post), (False, None, second_post)])) = [0, 1]"
    by (simp add: save_eval minted_def demo_cfg_def empty_world_def first_post_def second_post_def
        init_msg_def cong: let_weak_cong bind_weak_cong)
  from save_mints_fresh_ids [OF dp ret] have "distinct (minted (the (save_all demo_cfg empty_world
      [(False, None, first_post), (False, None, second_post)])))" by blast
  with dp ne ids show ?thesis by blast
qed

section \<open>Threads\<close>

lemma fold_retag_logged: "set (logged w) \<subseteq> set (logged (fold (retag i T) xs w))"
proof (induction xs arbitrary: w)
  case Nil
  then show ?case by simp
next
  case (Cons e xs)
  have "set (logged w) \<subseteq> set (logged (retag i T e w))" by (cases e) auto
  with Cons.IH [of "retag i T e w"] show ?case by auto
qed

lemma fold_create_logged [simp]:
  "logged (fold (\<lambda>tag v. v\<lparr>tagdb := AList.update tag s (tagdb v)\<rparr>) ts w) = logged w"
  by (induction ts arbitrary: w) simp_all

lemma reconcile_logged: "set (logged w) \<subseteq> set (logged (reconcile_tags m w))"
  using fold_retag_logged by (simp add: reconcile_tags_def create_tags_def)

lemma save_no_parent:
  assumes "cfg (''system'', ''datapath'') \<noteq> None" and "\<not> is_new m" and "parent m = None"
  shows "save cfg nq ct w m = Some (finish False (reconcile_tags m (put_msg m w)) m)"
  using assms
  by (subst save.simps) (auto simp add: save_body_def Let_def assert_fails_def link_parent_def)

lemma dispatch_plan_Fail:
  assumes "dispatch_plan cfg tgs = Fail e"
  shows "\<exists>s k. e = NoOptionError s k"
proof -
  have route: "route cfg ns ss ol ts = Fail e \<Longrightarrow> \<exists>s k. e = NoOptionError s k" for ns ss ol ts
    by (induction ts) (auto split: if_splits option.splits)
  from assms show ?thesis
    by (auto simp add: dispatch_plan_def Let_def format_origin_line_def get_origin_line_def
        split: option.splits if_splits sum.splits dest: route)
qed

text \<open>
  C5, as the code has it. A message saved with its own id as parent, where that id is not
  among its own children and \<^verbatim>\<open>system.datapath\<close> is configured, has the link stripped:
  the call comes back, the object and the record kept under the id have no parent, and the
  condition is logged. Nothing is raised for it: the call raises only where the network
  dispatch of a new message lacks an option of the configuration.
\<close>

theorem save_strips_self_parent:
  assumes dp: "cfg (''system'', ''datapath'') \<noteq> None"
    and self: "parent m = idx (assign ct w m)"
    and nochild: "the (idx (assign ct w m)) \<notin> children m"
  shows "\<exists>res. save cfg nq ct w m = Some res \<and>
           parent (msg_of res) = None \<and>
           (\<exists>r. get_msg (world_of res) (the (idx (assign ct w m))) = Some r \<and> parent r = None) \<and>
           SelfParent \<in> set (logged (world_of res)) \<and>
           (\<forall>e w' m'. res = Raised e w' m' \<longrightarrow>
              \<not> nq \<and> is_new m \<and> dispatch_plan cfg (tags m) = Fail e)"
proof -
  define m1 where "m1 = assign ct w m"
  define i where "i = the (idx m1)"
  define w2 where "w2 = reconcile_tags m1 (put_msg m1 w)"
  define m3 where "m3 = m1\<lparr>parent := None\<rparr>"
  define w3 where "w3 = strip_parent m1 w2"
  have old1: "\<not> is_new m1" by (simp add: m1_def)
  then have i1: "idx m1 = Some i" by (auto simp add: i_def is_new_def)
  have p1: "parent m1 = Some i" using self i1 by (simp add: m1_def)
  have na: "\<not> assert_fails m1" using nochild p1 by (simp add: assert_fails_def m1_def i_def)
  have "get_msg w2 i = Some m1" by (simp add: w2_def get_msg_def i_def update_conv')
  with p1 have link: "link_parent (save cfg False None) w2 m1 = Some (Ok w3 m3)"
    by (simp add: link_parent_def w3_def m3_def)
  have rec3: "get_msg w3 i = Some m3"
    by (simp add: w3_def m3_def get_msg_def i_def update_conv')
  have log3: "SelfParent \<in> set (logged w3)" by (simp add: w3_def strip_parent_def)
  have old3: "\<not> is_new m3" using old1 by (simp add: m3_def is_new_def)
  have i3: "idx m3 = Some i" using i1 by (simp add: m3_def)
  have unfold: "save cfg nq ct w m =
      (if \<not> nq \<and> is_new m then dispatch (save cfg False None) cfg (is_new m) w3 m3
       else Some (finish (is_new m) w3 m3))"
    using dp na link
    by (subst save.simps) (auto simp add: save_body_def Let_def m1_def [symmetric] w2_def [symmetric])
  show ?thesis
  proof (cases "\<not> nq \<and> is_new m")
    case False
    with unfold have "save cfg nq ct w m = Some (finish (is_new m) w3 m3)" by simp
    with rec3 log3 show ?thesis
      by (auto simp add: finish_def get_msg_def m3_def i_def m1_def)
  next
    case True
    show ?thesis
    proof (cases "dispatch_plan cfg (tags m3)")
      case NoAction
      with unfold True have "save cfg nq ct w m = Some (finish True w3 m3)"
        by (simp add: dispatch_def)
      with rec3 log3 show ?thesis
        by (auto simp add: finish_def get_msg_def m3_def i_def m1_def)
    next
      case (Fail e)
      with unfold True have "save cfg nq ct w m = Some (Raised e w3 m3)"
        by (simp add: dispatch_def)
      with rec3 log3 Fail True show ?thesis
        by (auto simp add: get_msg_def m3_def i_def m1_def)
    next
      case (Enqueue t db)
      with unfold True have "save cfg nq ct w m = Some (finish True (enqueue db t m3 w3) m3)"
        by (simp add: dispatch_def)
      with rec3 log3 show ?thesis
        by (auto simp add: finish_def enqueue_def get_msg_def m3_def i_def m1_def)
    next
      case (Transit t db origin)
      define m4 where "m4 = m3\<lparr>body := body m3 @ origin\<rparr>"
      define w4 where "w4 = reconcile_tags m4 (put_msg m4 w3)"
      have "\<not> is_new m4" "parent m4 = None" using old3 by (simp_all add: m4_def is_new_def m3_def)
      from save_no_parent [of cfg m4 False None w3, OF dp this]
      have "save cfg False None w3 m4 = Some (finish False w4 m4)" by (simp add: w4_def)
      with unfold True Transit
      have ret: "save cfg nq ct w m =
          Some (finish True (transit db t m4 (world_of (finish False w4 m4))) m4)"
        by (simp add: dispatch_def m4_def finish_def)
      have "get_msg w4 i = Some m4"
        using i3 by (simp add: w4_def get_msg_def m4_def update_conv')
      moreover have "SelfParent \<in> set (logged w4)"
        using log3 reconcile_logged [of "put_msg m4 w3" m4] by (auto simp add: w4_def)
      ultimately show ?thesis using ret
        by (auto simp add: finish_def transit_def get_msg_def m4_def m3_def i_def m1_def)
    qed
  qed
qed

definition own_child :: msg where
  "own_child = msg0\<lparr>parent := Some 0, children := {0, 1}\<rparr>"

text \<open>
  C5 as stated fails where the message is also its own child: the assertion comes before
  the check for a self-parent, the call raises, and the record written just before keeps
  the link.
\<close>

theorem self_parent_counterexample:
  "parent own_child = idx own_child \<and>
   map_option (\<lambda>res. (case res of Ok w m \<Rightarrow> None | Raised e w m \<Rightarrow> Some e,
                      map_option parent (get_msg (world_of res) 0)))
     (save demo_cfg False None demo_world own_child) =
   Some (Some AssertionError, Some (Some 0))"
  by (simp add: save_eval own_child_def demo_cfg_def demo_world_def msg0_def msg1_def update_conv'
      cong: let_weak_cong bind_weak_cong)

theorem save_strips_self_parent_witness:
  "demo_cfg (''system'', ''datapath'') \<noteq> None \<and>
   parent (msg1\<lparr>parent := Some 1\<rparr>) = idx (assign None demo_world (msg1\<lparr>parent := Some 1\<rparr>)) \<and>
   the (idx (assign None demo_world (msg1\<lparr>parent := Some 1\<rparr>))) \<notin> children (msg1\<lparr>parent := Some 1\<rparr>) \<and>
   save demo_cfg False None demo_world (msg1\<lparr>parent := Some 1\<rparr>) \<noteq> None \<and>
   map_option (\<lambda>res. (parent (msg_of res), map_option parent (get_msg (world_of res) 1),
                      SelfParent \<in> set (logged (world_of res))))
     (save demo_cfg False None demo_world (msg1\<lparr>parent := Some 1\<rparr>)) =
   Some (None, Some None, True)"
proof -
  have dp: "demo_cfg (''system'', ''datapath'') \<noteq> None" by (simp add: demo_cfg_def)
  have a: "assign None demo_world (msg1\<lparr>parent := Some 1\<rparr>) = msg1\<lparr>parent := Some 1\<rparr>"
    by (simp add: assign_def is_new_def msg1_def)
  have self: "parent (msg1\<lparr>parent := Some 1\<rparr>) =
      idx (assign None demo_world (msg1\<lparr>parent := Some 1\<rparr>))"
    unfolding a by (simp add: msg1_def)
  have nochild: "the (idx (assign None demo_world (msg1\<lparr>parent := Some 1\<rparr>))) \<notin>
      children (msg1\<lparr>parent := Some 1\<rparr>)"
    unfolding a by (simp add: msg1_def)
  have i: "the (idx (msg1\<lparr>parent := Some 1\<rparr>)) = 1" by (simp add: msg1_def)
  from save_strips_self_parent [of demo_cfg "msg1\<lparr>parent := Some 1\<rparr>" None demo_world False,
      OF dp self nochild, unfolded a i]
  obtain res where "save demo_cfg False None demo_world (msg1\<lparr>parent := Some 1\<rparr>) = Some res"
    and "parent (msg_of res) = None"
    and "\<exists>r. get_msg (world_of res) 1 = Some r \<and> parent r = None"
    and "SelfParent \<in> set (logged (world_of res))"
    by blast
  with dp self nochild show ?thesis by auto
qed

end
